theory Spec2Isabelle
  imports Main "HOL-Library.Word"
begin

unbundle bit_operations_syntax

section \<open>The pg-example client: payload padding and the session-token cache\<close>

text \<open>
  A shallow embedding of \<^verbatim>\<open>src/index.js\<close> (class \<^verbatim>\<open>Client\<close>).
  The two pieces of logic in that file are
  \<^item> the length-prefixed, 512-byte padded buffer that \<^verbatim>\<open>encrypt\<close> hands to the
    WASM module and that \<^verbatim>\<open>decrypt\<close> unpacks again, and
  \<^item> the token cache of \<^verbatim>\<open>requestToken\<close>.
  Everything the file calls but does not define (the JSON and text codecs of the
  platform, the WASM module, the IRMA popup, the storage object, the clock) is a
  parameter of the model.
\<close>

subsection \<open>JavaScript values used by the file\<close>

type_synonym byte = "8 word"
type_synonym bytes = "byte list"

text \<open>
  Every \<^verbatim>\<open>throw\<close> of the file and every exception of a callee is a value.
  \<open>ModuleNotLoaded\<close> is \<^verbatim>\<open>Error('WASM module not loaded yet')\<close>,
  \<open>TooLarge\<close> is \<^verbatim>\<open>Error('Too large to encrypt')\<close>, \<open>SyntaxError\<close> is what
  \<^verbatim>\<open>JSON.parse\<close> throws, \<open>TypeError\<close> what \<^verbatim>\<open>JSON.stringify\<close> throws,
  \<open>RangeError\<close> what the typed-array constructors and \<^verbatim>\<open>set\<close> throw, and
  \<open>External\<close> is a failure of a collaborator (WASM module, IRMA popup).
\<close>

datatype error =
    ModuleNotLoaded
  | TooLarge
  | SyntaxError
  | TypeError
  | RangeError
  | External string

text \<open>
  The bitwise operators of JavaScript convert their operands to 32-bit signed
  integers (\<open>ToInt32\<close>), and the shift count is taken modulo 32.
\<close>

definition ToInt32 :: "int \<Rightarrow> int" where
  "ToInt32 n = signed_take_bit 31 n"

definition js_sar :: "int \<Rightarrow> nat \<Rightarrow> int" where
  \<comment> \<open>\<^verbatim>\<open>a >> k\<close>\<close>
  "js_sar a k = drop_bit (k mod 32) (ToInt32 a)"

definition js_shl :: "int \<Rightarrow> nat \<Rightarrow> int" where
  \<comment> \<open>\<^verbatim>\<open>a << k\<close>\<close>
  "js_shl a k = ToInt32 (push_bit (k mod 32) (ToInt32 a))"

definition js_and :: "int \<Rightarrow> int \<Rightarrow> int" where
  \<comment> \<open>\<^verbatim>\<open>a & b\<close>\<close>
  "js_and a b = ToInt32 a AND ToInt32 b"

definition js_or :: "int \<Rightarrow> int \<Rightarrow> int" where
  \<comment> \<open>\<^verbatim>\<open>a | b\<close>\<close>
  "js_or a b = ToInt32 a OR ToInt32 b"

text \<open>Storing a number into a \<^verbatim>\<open>Uint8Array\<close> keeps it modulo 256.\<close>

definition ToUint8 :: "int \<Rightarrow> byte" where
  "ToUint8 n = word_of_int n"

text \<open>
  \<^verbatim>\<open>new ArrayBuffer(n)\<close> is zero-filled and throws for a negative length.
\<close>

definition new_ArrayBuffer :: "int \<Rightarrow> error + bytes" where
  "new_ArrayBuffer n = (if n < 0 then Inl RangeError else Inr (replicate (nat n) 0))"

text \<open>
  \<^verbatim>\<open>new Uint8Array(buf, off).set(src)\<close>: the view starts at byte \<open>off\<close> of the
  buffer, and \<^verbatim>\<open>set\<close> copies \<open>src\<close> to the start of the view. Both throw a
  \<^verbatim>\<open>RangeError\<close> when the target is too short.
\<close>

definition u8_set_at :: "bytes \<Rightarrow> nat \<Rightarrow> bytes \<Rightarrow> error + bytes" where
  "u8_set_at buf off src =
     (if off > length buf \<or> length src > length buf - off then Inl RangeError
      else Inr (take off buf @ src @ drop (off + length src) buf))"

text \<open>
  Reading \<^verbatim>\<open>buf[i]\<close> as the operand of a bitwise operator: past the end the
  read is \<^verbatim>\<open>undefined\<close>, which \<open>ToInt32\<close> maps to 0.
\<close>

definition u8_operand :: "bytes \<Rightarrow> nat \<Rightarrow> int" where
  "u8_operand buf i = (if i < length buf then uint (buf ! i) else 0)"

text \<open>
  \<^verbatim>\<open>buf.slice(start, end)\<close> for non-negative arguments: both ends are clamped
  to the length, and an empty range gives an empty array. It never throws.
\<close>

definition u8_slice :: "bytes \<Rightarrow> nat \<Rightarrow> nat \<Rightarrow> bytes" where
  "u8_slice buf start fin =
     (let len = length buf;
          k = min start len;
          final = min fin len
      in take (final - k) (drop k buf))"

subsection \<open>The platform's JSON and text codecs\<close>

text \<open>
  \<open>stringify_utf8 x\<close> stands for \<^verbatim>\<open>new TextEncoder().encode(JSON.stringify(x))\<close>,
  which throws a \<^verbatim>\<open>TypeError\<close> on a cyclic value; \<open>parse_utf8 b\<close> stands for
  \<^verbatim>\<open>JSON.parse(new TextDecoder().decode(b))\<close>, where \<open>None\<close> is the
  \<^verbatim>\<open>SyntaxError\<close> of \<^verbatim>\<open>JSON.parse\<close> (the decoder itself never throws: it is
  not created with \<^verbatim>\<open>fatal\<close>).
\<close>

record 'v json_lib =
  stringify_utf8 :: "'v \<Rightarrow> error + bytes"
  parse_utf8 :: "bytes \<Rightarrow> 'v option"

subsection \<open>The client\<close>

text \<open>An attribute object: its properties in insertion order; \<open>None\<close> is \<^verbatim>\<open>undefined\<close>.\<close>

type_synonym attribute = "(string \<times> string option) list"

definition get_prop :: "attribute \<Rightarrow> string \<Rightarrow> string option" where
  \<comment> \<open>\<^verbatim>\<open>attribute.name\<close>\<close>
  "get_prop a name = (case map_of a name of None \<Rightarrow> None | Some v \<Rightarrow> v)"

record wasm_module =
  wasm_encrypt :: "string option \<Rightarrow> string option \<Rightarrow> string \<Rightarrow> bytes \<Rightarrow> string + bytes"
  wasm_decrypt :: "bytes \<Rightarrow> string \<Rightarrow> string + bytes"

record params =
  public_key :: string
  max_age :: int

record client =
  url :: string
  params :: params
  module :: "wasm_module option"
  localStorage :: bool

subsection \<open>\<^verbatim>\<open>encrypt\<close>\<close>

definition paddingBits :: nat where
  "paddingBits = 9"

definition paddedLength :: "int \<Rightarrow> int" where
  "paddedLength l = js_shl (js_sar (l + 1) paddingBits + 1) paddingBits"

text \<open>
  Lines 72 to 84 of \<^verbatim>\<open>encrypt\<close>: the buffer that is passed to the module.
\<close>

definition encrypt_buf :: "'v json_lib \<Rightarrow> 'v \<Rightarrow> error + bytes" where
  "encrypt_buf lib plaintextObject =
     (case stringify_utf8 lib plaintextObject of
        Inl e \<Rightarrow> Inl e
      | Inr objectBytes \<Rightarrow>
          let l = int (length objectBytes) in
          if l \<ge> 65536 - 2 then Inl TooLarge
          else
            (case new_ArrayBuffer (paddedLength l) of
               Inl e \<Rightarrow> Inl e
             | Inr buf \<Rightarrow>
                 let buf8 = buf[0 := ToUint8 (js_sar l 8)];
                     buf8 = buf8[1 := ToUint8 (js_and l 255)]
                 in u8_set_at buf8 2 objectBytes))"

definition encrypt :: "'v json_lib \<Rightarrow> client \<Rightarrow> attribute \<Rightarrow> 'v \<Rightarrow> error + bytes" where
  "encrypt lib c attribute plaintextObject =
     (case module c of
        None \<Rightarrow> Inl ModuleNotLoaded
      | Some m \<Rightarrow>
          (case encrypt_buf lib plaintextObject of
             Inl e \<Rightarrow> Inl e
           | Inr buf \<Rightarrow>
               (case wasm_encrypt m (get_prop attribute ''type'') (get_prop attribute ''value'')
                       (public_key (params c)) buf of
                  Inl msg \<Rightarrow> Inl (External msg)
                | Inr ct \<Rightarrow> Inr ct)))"

subsection \<open>\<^verbatim>\<open>decrypt\<close>\<close>

definition length_prefix :: "bytes \<Rightarrow> int" where
  \<comment> \<open>\<^verbatim>\<open>(buf[0] << 8) | buf[1]\<close>\<close>
  "length_prefix buf = js_or (js_shl (u8_operand buf 0) 8) (u8_operand buf 1)"

text \<open>Lines 103 to 105 of \<^verbatim>\<open>decrypt\<close>: unpacking the buffer the module returns.\<close>

definition decrypt_buf :: "'v json_lib \<Rightarrow> bytes \<Rightarrow> error + 'v" where
  "decrypt_buf lib buf =
     (let len = length_prefix buf in
      case parse_utf8 lib (u8_slice buf 2 (nat (2 + len))) of
        None \<Rightarrow> Inl SyntaxError
      | Some v \<Rightarrow> Inr v)"

definition decrypt :: "'v json_lib \<Rightarrow> client \<Rightarrow> string \<Rightarrow> bytes \<Rightarrow> error + 'v" where
  "decrypt lib c usk irmasealBytestream =
     (case module c of
        None \<Rightarrow> Inl ModuleNotLoaded
      | Some m \<Rightarrow>
          (case wasm_decrypt m irmasealBytestream usk of
             Inl msg \<Rightarrow> Inl (External msg)
           | Inr buf \<Rightarrow> decrypt_buf lib buf))"

subsection \<open>\<^verbatim>\<open>JSON.stringify\<close> on an attribute\<close>

text \<open>
  \<^verbatim>\<open>requestToken\<close> uses \<^verbatim>\<open>JSON.stringify(attribute)\<close> as the cache key, so the
  text it produces matters. For an object whose property values are strings,
  ECMAScript's \<^verbatim>\<open>JSON.stringify\<close> writes the properties in insertion order,
  skips those whose value is \<^verbatim>\<open>undefined\<close>, and quotes names and values with
  \<^verbatim>\<open>QuoteJSONString\<close>. Strings are kept as their UTF-8 bytes, one \<open>char\<close> per
  byte. (Property names that are array indices, which JavaScript orders first, do
  not occur in an attribute.)
\<close>

definition hex_digit :: "nat \<Rightarrow> char" where
  "hex_digit n = ''0123456789abcdef'' ! (n mod 16)"

definition JSON_escape :: "char \<Rightarrow> string" where
  "JSON_escape c =
     (let n = (of_char c :: nat) in
      if n = 0x22 then [CHR 0x5C, CHR 0x22]
      else if n = 0x5C then [CHR 0x5C, CHR 0x5C]
      else if n = 0x08 then [CHR 0x5C, CHR ''b'']
      else if n = 0x09 then [CHR 0x5C, CHR ''t'']
      else if n = 0x0A then [CHR 0x5C, CHR ''n'']
      else if n = 0x0C then [CHR 0x5C, CHR ''f'']
      else if n = 0x0D then [CHR 0x5C, CHR ''r'']
      else if n < 0x20 then
        [CHR 0x5C, CHR ''u'', CHR ''0'', CHR ''0'', hex_digit (n div 16), hex_digit n]
      else [c])"

definition JSON_quote :: "string \<Rightarrow> string" where
  "JSON_quote s = [CHR 0x22] @ concat (map JSON_escape s) @ [CHR 0x22]"

fun join :: "string \<Rightarrow> string list \<Rightarrow> string" where
  "join sep [] = []"
| "join sep [x] = x"
| "join sep (x # y # ys) = x @ sep @ join sep (y # ys)"

fun JSON_members :: "attribute \<Rightarrow> string list" where
  "JSON_members [] = []"
| "JSON_members ((k, None) # ps) = JSON_members ps"
| "JSON_members ((k, Some v) # ps) = (JSON_quote k @ '':'' @ JSON_quote v) # JSON_members ps"

text \<open>The properties that \<^verbatim>\<open>JSON.stringify\<close> writes: those that are not \<^verbatim>\<open>undefined\<close>.\<close>

fun defined_props :: "attribute \<Rightarrow> (string \<times> string) list" where
  "defined_props [] = []"
| "defined_props ((k, None) # ps) = defined_props ps"
| "defined_props ((k, Some v) # ps) = (k, v) # defined_props ps"

definition JSON_stringify :: "attribute \<Rightarrow> string" where
  "JSON_stringify a = ''{'' @ join '','' (JSON_members a) @ ''}''"

subsection \<open>An instance of the codecs, for concrete runs\<close>

text \<open>
  The plaintext objects of this instance are strings. \<^verbatim>\<open>JSON.stringify\<close> of a
  string is its quoted form, and the bytes are those of the text. The parser
  accepts the JSON texts that are one string literal of ASCII characters without
  escape sequences, and returns the characters between the quotes; the texts it
  rejects in the examples below (a lone quote, the empty text) are texts on which
  \<^verbatim>\<open>JSON.parse\<close> throws.
\<close>

definition bytes_of :: "string \<Rightarrow> bytes" where
  "bytes_of s = map of_char s"

definition string_of :: "bytes \<Rightarrow> string" where
  "string_of b = map (\<lambda>w. char_of (unat w)) b"

definition unescaped :: "char \<Rightarrow> bool" where
  "unescaped c = (JSON_escape c = [c] \<and> (of_char c :: nat) < 0x80)"

definition parse_string :: "bytes \<Rightarrow> string option" where
  "parse_string b =
     (case string_of b of
        [] \<Rightarrow> None
      | c # r \<Rightarrow>
          if c = CHR 0x22 \<and> r \<noteq> [] \<and> last r = CHR 0x22 \<and> list_all unescaped (butlast r)
          then Some (butlast r) else None)"

definition string_lib :: "string json_lib" where
  "string_lib =
     \<lparr>stringify_utf8 = (\<lambda>s. Inr (bytes_of (JSON_quote s))), parse_utf8 = parse_string\<rparr>"

text \<open>
  A second instance, with the values \<^verbatim>\<open>undefined\<close>, \<^verbatim>\<open>null\<close>, \<^verbatim>\<open>NaN\<close>, the
  booleans and the strings. \<^verbatim>\<open>JSON.stringify(NaN)\<close> is the text \<^verbatim>\<open>null\<close>.
  \<^verbatim>\<open>JSON.stringify(undefined)\<close> is \<^verbatim>\<open>undefined\<close>, which
  \<^verbatim>\<open>TextEncoder.encode\<close> turns into no bytes. The parser accepts the texts
  \<^verbatim>\<open>null\<close>, \<^verbatim>\<open>true\<close>, \<^verbatim>\<open>false\<close> and the string literals of the first
  instance.
\<close>

datatype js_value = JUndefined | JNull | JNaN | JBool bool | JStr string

fun js_stringify :: "js_value \<Rightarrow> error + bytes" where
  "js_stringify JUndefined = Inr []"
| "js_stringify JNull = Inr (bytes_of ''null'')"
| "js_stringify JNaN = Inr (bytes_of ''null'')"
| "js_stringify (JBool b) = Inr (bytes_of (if b then ''true'' else ''false''))"
| "js_stringify (JStr s) = Inr (bytes_of (JSON_quote s))"

definition js_parse :: "bytes \<Rightarrow> js_value option" where
  "js_parse b =
     (if string_of b = ''null'' then Some JNull
      else if string_of b = ''true'' then Some (JBool True)
      else if string_of b = ''false'' then Some (JBool False)
      else map_option JStr (parse_string b))"

definition js_lib :: "js_value json_lib" where
  "js_lib = \<lparr>stringify_utf8 = js_stringify, parse_utf8 = js_parse\<rparr>"

text \<open>Unpacking the buffer built for \<open>x\<close>: the round trip through the codec.\<close>

definition decode_encode :: "'v json_lib \<Rightarrow> 'v \<Rightarrow> error + 'v" where
  "decode_encode lib x =
     (case encrypt_buf lib x of Inl e \<Rightarrow> Inl e | Inr buf \<Rightarrow> decrypt_buf lib buf)"

subsection \<open>The token cache\<close>

text \<open>
  What \<^verbatim>\<open>requestToken\<close> stores under a key: an object with the properties
  \<^verbatim>\<open>token\<close> and \<^verbatim>\<open>validUntil\<close>, each of which may be missing (\<open>None\<close>).
  Times are milliseconds since the epoch, as \<^verbatim>\<open>Date.now()\<close> gives them.
\<close>

record cached_token =
  token :: "string option"
  validUntil :: "int option"

definition Object_keys :: "cached_token \<Rightarrow> string list" where
  "Object_keys e =
     (case token e of None \<Rightarrow> [] | Some _ \<Rightarrow> [''token'']) @
     (case validUntil e of None \<Rightarrow> [] | Some _ \<Rightarrow> [''validUntil''])"

type_synonym store = "string \<rightharpoonup> cached_token"

text \<open>
  The storage object given to \<^verbatim>\<open>Client.build\<close> is the caller's. Its contract,
  as the file uses it: \<^verbatim>\<open>get(key)\<close> gives an object that has the property
  \<open>key\<close> when something is stored under it, and \<^verbatim>\<open>set(entries)\<close> stores every
  entry, replacing what was stored under the same key.
\<close>

definition ls_get :: "store \<Rightarrow> string \<Rightarrow> store" where
  "ls_get st key = (\<lambda>k. if k = key then st k else None)"

definition ls_set :: "store \<Rightarrow> store \<Rightarrow> store" where
  "ls_set st entries = st ++ entries"

text \<open>
  The \<^verbatim>\<open>Date\<close> arithmetic of ECMAScript on time values, for time values inside
  the range of \<^verbatim>\<open>Date\<close>. The time zone is ECMAScript's \<open>LocalTZA(t, isUTC)\<close>: the
  offset of local time from UTC in milliseconds, at the UTC time \<open>t\<close> when
  \<open>isUTC\<close> holds and at the local time \<open>t\<close> otherwise. It changes with \<open>t\<close>
  where daylight saving begins or ends.
\<close>

type_synonym time_zone = "int \<Rightarrow> bool \<Rightarrow> int"

definition LocalTime :: "time_zone \<Rightarrow> int \<Rightarrow> int" where
  "LocalTime tza t = t + tza t True"

definition UTC :: "time_zone \<Rightarrow> int \<Rightarrow> int" where
  "UTC tza t = t - tza t False"

definition Day :: "int \<Rightarrow> int" where
  "Day t = t div 86400000"

definition HourFromTime :: "int \<Rightarrow> int" where
  "HourFromTime t = (t div 3600000) mod 24"

definition MinFromTime :: "int \<Rightarrow> int" where
  "MinFromTime t = (t div 60000) mod 60"

definition SecFromTime :: "int \<Rightarrow> int" where
  "SecFromTime t = (t div 1000) mod 60"

definition msFromTime :: "int \<Rightarrow> int" where
  "msFromTime t = t mod 1000"

definition MakeTime :: "int \<Rightarrow> int \<Rightarrow> int \<Rightarrow> int \<Rightarrow> int" where
  "MakeTime hour minute sec ms = hour * 3600000 + minute * 60000 + sec * 1000 + ms"

definition MakeDate :: "int \<Rightarrow> int \<Rightarrow> int" where
  "MakeDate day time = day * 86400000 + time"

definition Date_getSeconds :: "time_zone \<Rightarrow> int \<Rightarrow> int" where
  "Date_getSeconds tza t = SecFromTime (LocalTime tza t)"

definition Date_setSeconds :: "time_zone \<Rightarrow> int \<Rightarrow> int \<Rightarrow> int" where
  \<comment> \<open>the new time value, which \<^verbatim>\<open>setSeconds\<close> returns\<close>
  "Date_setSeconds tza t sec =
     (let lt = LocalTime tza t;
          date = MakeDate (Day lt)
                   (MakeTime (HourFromTime lt) (MinFromTime lt) sec (msFromTime lt))
      in UTC tza date)"

text \<open>
  What lies outside the client: the clock read by \<^verbatim>\<open>Date.now()\<close>, the time
  zone, the contents of the storage object, and the IRMA sessions started so far.
\<close>

record world =
  clock :: int
  LocalTZA :: time_zone
  storage :: store
  sessions :: "attribute list"

text \<open>
  The IRMA popup is the identity-verification collaborator. One session either
  fails with a message or yields a session token, and takes some time.
\<close>

record irma_session =
  outcome :: "string + string"
  duration :: nat

type_synonym irma_frontend = "string \<Rightarrow> attribute \<Rightarrow> world \<Rightarrow> irma_session"

text \<open>\<^verbatim>\<open>_requestToken\<close>: starts one session and resolves to its token, or rejects.\<close>

definition irma_requestToken ::
  "irma_frontend \<Rightarrow> client \<Rightarrow> attribute \<Rightarrow> world \<Rightarrow> (error + string) \<times> world" where
  "irma_requestToken irma c attribute w =
     (let s = irma (url c) attribute w;
          w' = w\<lparr>clock := clock w + int (duration s), sessions := sessions w @ [attribute]\<rparr>
      in (case outcome s of Inl msg \<Rightarrow> Inl (External msg) | Inr tok \<Rightarrow> Inr tok, w'))"

text \<open>
  The condition of the \<^verbatim>\<open>if\<close> in \<^verbatim>\<open>requestToken\<close>:
  \<^verbatim>\<open>!cached || Object.keys(cached).length === 0 ||
  (cached.validUntil && Date.now() >= cached.validUntil)\<close>.
  A number is truthy when it is not 0.
\<close>

definition cache_miss :: "cached_token option \<Rightarrow> int \<Rightarrow> bool" where
  "cache_miss cached now =
     (case cached of
        None \<Rightarrow> True
      | Some e \<Rightarrow>
          length (Object_keys e) = 0 \<or>
          (case validUntil e of None \<Rightarrow> False | Some v \<Rightarrow> v \<noteq> 0 \<and> now \<ge> v))"

definition requestToken ::
  "irma_frontend \<Rightarrow> client \<Rightarrow> attribute \<Rightarrow> world \<Rightarrow> (error + string option) \<times> world" where
  "requestToken irma c attribute w =
     (if \<not> localStorage c then
        (case irma_requestToken irma c attribute w of (r, w') \<Rightarrow> (map_sum id Some r, w'))
      else
        let serializedAttr = JSON_stringify attribute;
            cacheObj = ls_get (storage w) serializedAttr;
            cached = cacheObj serializedAttr
        in
          if cache_miss cached (clock w) then
            (case irma_requestToken irma c attribute w of
               (Inl e, w') \<Rightarrow> (Inl e, w')
             | (Inr tok, w') \<Rightarrow>
                 let t = clock w';
                     validUntil' = Date_setSeconds (LocalTZA w') t
                                     (Date_getSeconds (LocalTZA w') t + max_age (params c));
                     w'' = w'\<lparr>storage := ls_set (storage w')
                              [serializedAttr \<mapsto> \<lparr>token = Some tok, validUntil = Some validUntil'\<rparr>]\<rparr>
                 in (Inr (Some tok), w''))
          else (Inr (case cached of None \<Rightarrow> None | Some e \<Rightarrow> token e), w))"

text \<open>
  The validity rule in the words of the specification: the entry exists, has at
  least one field, and has no \<^verbatim>\<open>validUntil\<close> or the current time is strictly
  before it.
\<close>

definition spec_cache_valid :: "cached_token option \<Rightarrow> int \<Rightarrow> bool" where
  "spec_cache_valid cached now =
     (case cached of
        None \<Rightarrow> False
      | Some e \<Rightarrow>
          Object_keys e \<noteq> [] \<and>
          (case validUntil e of None \<Rightarrow> True | Some v \<Rightarrow> now < v))"

subsection \<open>A client, an attribute and some worlds, for concrete runs\<close>

definition example_client :: client where
  "example_client =
     \<lparr>url = ''pkg'', params = \<lparr>public_key = ''pk'', max_age = 300\<rparr>,
      module = None, localStorage = True\<rparr>"

definition example_attribute :: attribute where
  "example_attribute = [(''type'', Some ''email''), (''value'', Some ''alice'')]"

text \<open>A popup that yields the token \<^verbatim>\<open>fresh\<close> after two seconds, and one that is abandoned.\<close>

definition fresh_irma :: irma_frontend where
  "fresh_irma u a w = \<lparr>outcome = Inr ''fresh'', duration = 2000\<rparr>"

definition failing_irma :: irma_frontend where
  "failing_irma u a w = \<lparr>outcome = Inl ''aborted'', duration = 2000\<rparr>"

text \<open>A time zone that is always at UTC.\<close>

definition utc_zone :: time_zone where
  "utc_zone t isUTC = 0"

text \<open>
  A time zone in which the clocks go back from two hours ahead of UTC to one hour
  ahead at 01:00 UTC of day 0, that is at 03:00 local time. The local times from
  02:00 to 03:00 occur twice; ECMAScript reads them with the earlier offset.
\<close>

definition autumn_zone :: time_zone where
  "autumn_zone t isUTC =
     (if isUTC then (if t < 3600000 then 7200000 else 3600000)
      else (if t < 10800000 then 7200000 else 3600000))"

text \<open>
  Three states of the storage at time 1000: nothing stored; an entry that is valid
  until time 5000; and an entry whose \<^verbatim>\<open>validUntil\<close> is 0.
\<close>

definition cold_world :: world where
  "cold_world = \<lparr>clock = 1000, LocalTZA = utc_zone, storage = Map.empty, sessions = []\<rparr>"

definition warm_world :: world where
  "warm_world =
     \<lparr>clock = 1000, LocalTZA = utc_zone,
      storage = [JSON_stringify example_attribute \<mapsto> \<lparr>token = Some ''T'', validUntil = Some 5000\<rparr>],
      sessions = []\<rparr>"

definition stale_world :: world where
  "stale_world =
     \<lparr>clock = 1000, LocalTZA = utc_zone,
      storage = [JSON_stringify example_attribute \<mapsto> \<lparr>token = Some ''T'', validUntil = Some 0\<rparr>],
      sessions = []\<rparr>"

section \<open>Auxiliary facts\<close>

subsection \<open>The bitwise operators on small non-negative numbers\<close>

lemma ToInt32_id: "- 2147483648 \<le> a \<Longrightarrow> a < 2147483648 \<Longrightarrow> ToInt32 a = a"
  by (simp add: ToInt32_def signed_take_bit_int_eq_self)

lemma js_sar_div: "0 \<le> a \<Longrightarrow> a < 2147483648 \<Longrightarrow> k < 32 \<Longrightarrow> js_sar a k = a div 2 ^ k"
  by (simp add: js_sar_def ToInt32_id drop_bit_eq_div)

lemma js_shl_mult:
  assumes "0 \<le> a" "a * 2 ^ k < 2147483648" "k < 32"
  shows "js_shl a k = a * 2 ^ k"
proof -
  have "a \<le> a * 2 ^ k"
    using assms(1) by (simp add: mult_le_cancel_left1)
  then have a: "ToInt32 a = a"
    using assms by (intro ToInt32_id) auto
  have "0 \<le> a * 2 ^ k" using assms(1) by simp
  then have "ToInt32 (a * 2 ^ k) = a * 2 ^ k"
    using assms(2) by (intro ToInt32_id) auto
  then show ?thesis using assms(3)
    by (simp add: js_shl_def a push_bit_eq_mult)
qed

lemma js_and_255:
  assumes "0 \<le> a" "a < 2147483648"
  shows "js_and a 255 = a mod 256"
proof -
  have "a AND 255 = a AND mask 8" by (simp add: mask_eq_exp_minus_1)
  also have "\<dots> = a mod 256" by (simp add: and_mask_mod_2p take_bit_eq_mod flip: take_bit_eq_mask)
  finally show ?thesis using assms by (simp add: js_and_def ToInt32_id)
qed

lemma js_or_add:
  assumes "0 \<le> h" "h < 256" "0 \<le> lo" "lo < 256"
  shows "js_or (h * 256) lo = h * 256 + lo"
proof -
  have "(h * 256) AND lo = 0"
  proof (rule bit_eqI)
    fix n
    have "lo = take_bit 8 lo" using assms by (simp add: take_bit_int_eq_self)
    then have "bit lo n \<Longrightarrow> n < 8" by (metis bit_take_bit_iff)
    moreover have "h * 256 = push_bit 8 h" by (simp add: push_bit_eq_mult)
    then have "bit (h * 256) n \<Longrightarrow> 8 \<le> n" by (simp add: bit_push_bit_iff)
    ultimately show "bit (h * 256 AND lo) n = bit (0::int) n"
      by (auto simp: bit_and_iff)
  qed
  then have "h * 256 OR lo = h * 256 + lo"
    by (simp add: disjunctive_add_eq_or)
  moreover have "ToInt32 (h * 256) = h * 256" "ToInt32 lo = lo"
    using assms by (auto intro!: ToInt32_id)
  ultimately show ?thesis by (simp add: js_or_def)
qed

lemma paddedLength_eq:
  assumes "0 \<le> l" "l < 65534"
  shows "paddedLength l = ((l + 1) div 512 + 1) * 512"
proof -
  have s: "js_sar (l + 1) 9 = (l + 1) div 512"
    using assms by (simp add: js_sar_div)
  have "(l + 1) div 512 \<le> 127" using assms by simp
  moreover have "0 \<le> (l + 1) div 512" using assms by simp
  ultimately have "js_shl ((l + 1) div 512 + 1) 9 = ((l + 1) div 512 + 1) * 2 ^ 9"
    by (intro js_shl_mult) auto
  then show ?thesis by (simp add: paddedLength_def paddingBits_def s)
qed

subsection \<open>The layout of the buffer built by \<^verbatim>\<open>encrypt\<close>\<close>

lemma paddedLength_bounds:
  assumes "0 \<le> l" "l < 65534"
  shows "l + 2 \<le> paddedLength l" "512 \<le> paddedLength l" "paddedLength l mod 512 = 0"
proof -
  let ?p = "((l + 1) div 512 + 1) * 512"
  have p: "paddedLength l = ?p" using assms by (rule paddedLength_eq)
  have "(l + 1) mod 512 < 512" by simp
  moreover have "?p = (l + 1) div 512 * 512 + 512" by (simp add: algebra_simps)
  ultimately have "l + 1 < ?p"
    using div_mult_mod_eq [of "l + 1" 512] by linarith
  then show "l + 2 \<le> paddedLength l" by (simp add: p)
  have "0 \<le> (l + 1) div 512" using assms by simp
  then show "512 \<le> paddedLength l" by (simp add: p)
  show "paddedLength l mod 512 = 0" by (simp add: p)
qed

lemma updated_zero_buffer:
  assumes "2 \<le> n"
  shows "(replicate n (0::byte))[0 := a, Suc 0 := b] = a # b # replicate (n - 2) 0"
proof -
  obtain m where n: "n = Suc (Suc m)"
    using assms by (metis add_2_eq_Suc le_Suc_ex)
  show ?thesis by (simp add: n)
qed

lemma u8_set_at_prefix:
  assumes "length src \<le> k"
  shows "u8_set_at (a # b # replicate k 0) 2 src = Inr (a # b # src @ replicate (k - length src) 0)"
  using assms by (simp add: u8_set_at_def)

lemma encrypt_buf_layout:
  assumes ser: "stringify_utf8 lib x = Inr bs" and small: "length bs < 65534"
  shows "encrypt_buf lib x =
           Inr (ToUint8 (int (length bs) div 256) # ToUint8 (int (length bs) mod 256) # bs
                @ replicate (nat (paddedLength (int (length bs))) - 2 - length bs) 0)"
proof -
  let ?l = "int (length bs)"
  let ?n = "nat (paddedLength ?l)"
  have l: "0 \<le> ?l" "?l < 65534" using small by auto
  have n: "length bs + 2 \<le> ?n"
    using paddedLength_bounds(1) [OF l] by linarith
  have hi: "js_sar ?l 8 = ?l div 256" using l by (simp add: js_sar_div)
  have lo: "js_and ?l 255 = ?l mod 256" using l by (simp add: js_and_255)
  have alloc: "new_ArrayBuffer (paddedLength ?l) = Inr (replicate ?n 0)"
    using paddedLength_bounds(2) [OF l] by (simp add: new_ArrayBuffer_def)
  have upd: "(replicate ?n (0::byte))[0 := ToUint8 (?l div 256), Suc 0 := ToUint8 (?l mod 256)]
             = ToUint8 (?l div 256) # ToUint8 (?l mod 256) # replicate (?n - 2) 0"
    using n by (intro updated_zero_buffer) linarith
  have set: "u8_set_at (ToUint8 (?l div 256) # ToUint8 (?l mod 256) # replicate (?n - 2) 0) 2 bs
             = Inr (ToUint8 (?l div 256) # ToUint8 (?l mod 256) # bs @ replicate (?n - 2 - length bs) 0)"
    using n by (intro u8_set_at_prefix) linarith
  show ?thesis
    using l(2) by (simp add: encrypt_buf_def ser alloc hi lo upd set Let_def)
qed

lemma encrypt_buf_length:
  assumes ser: "stringify_utf8 lib x = Inr bs" and small: "length bs < 65534"
    and enc: "encrypt_buf lib x = Inr buf"
  shows "int (length buf) = paddedLength (int (length bs))"
proof -
  let ?l = "int (length bs)"
  have l: "0 \<le> ?l" "?l < 65534" using small by auto
  have "length bs + 2 \<le> nat (paddedLength ?l)"
    using paddedLength_bounds(1) [OF l] by linarith
  moreover have "0 \<le> paddedLength ?l" using paddedLength_bounds(2) [OF l] by linarith
  ultimately show ?thesis
    using enc unfolding encrypt_buf_layout [OF ser small] by auto
qed

subsection \<open>Reading the length prefix and the payload\<close>

lemma uint_ToUint8: "0 \<le> n \<Longrightarrow> n < 256 \<Longrightarrow> uint (ToUint8 n) = n"
  by (simp add: ToUint8_def uint_word_of_int take_bit_int_eq_self)

lemma length_prefix_eq:
  "length_prefix (a # b # rest) = uint a * 256 + uint b"
proof -
  have a: "0 \<le> uint a" "uint a < 256" using uint_lt2p [of a] by auto
  have b: "0 \<le> uint b" "uint b < 256" using uint_lt2p [of b] by auto
  have "js_shl (uint a) 8 = uint a * 2 ^ 8"
    using a by (intro js_shl_mult) auto
  then show ?thesis
    using js_or_add [OF a b] by (simp add: length_prefix_def u8_operand_def)
qed

lemma length_prefix_range: "0 \<le> length_prefix buf" "length_prefix buf < 65536"
proof -
  have r: "0 \<le> u8_operand buf i \<and> u8_operand buf i < 256" for i
    using uint_lt2p [of "buf ! i"] by (auto simp: u8_operand_def)
  have "js_shl (u8_operand buf 0) 8 = u8_operand buf 0 * 2 ^ 8"
    using r [of 0] by (intro js_shl_mult) auto
  then have e: "length_prefix buf = u8_operand buf 0 * 256 + u8_operand buf 1"
    using js_or_add [of "u8_operand buf 0" "u8_operand buf 1"] r [of 0] r [of 1]
    by (simp add: length_prefix_def)
  show "0 \<le> length_prefix buf" using r [of 0] r [of 1] unfolding e by linarith
  show "length_prefix buf < 65536" using r [of 0] r [of 1] unfolding e by linarith
qed

lemma length_prefix_encoded:
  assumes "0 \<le> l" "l < 65536"
  shows "length_prefix (ToUint8 (l div 256) # ToUint8 (l mod 256) # rest) = l"
proof -
  have "l div 256 < 256" using assms by simp
  moreover have "0 \<le> l div 256" using assms by simp
  ultimately have "uint (ToUint8 (l div 256)) = l div 256" by (rule uint_ToUint8 [rotated])
  moreover have "uint (ToUint8 (l mod 256)) = l mod 256" by (simp add: uint_ToUint8)
  ultimately show ?thesis by (simp add: length_prefix_eq)
qed

lemma u8_slice_payload:
  "u8_slice (a # b # bs @ pad) 2 (2 + length bs) = bs"
  by (simp add: u8_slice_def)


subsection \<open>Unpacking what was packed\<close>

lemma encrypt_buf_payload:
  assumes "stringify_utf8 lib x = Inr bs" and "length bs < 65534"
  obtains buf where "encrypt_buf lib x = Inr buf"
    and "u8_slice buf 2 (nat (2 + length_prefix buf)) = bs"
proof -
  let ?l = "int (length bs)"
  let ?buf = "ToUint8 (?l div 256) # ToUint8 (?l mod 256) # bs
                @ replicate (nat (paddedLength ?l) - 2 - length bs) 0"
  have enc: "encrypt_buf lib x = Inr ?buf"
    using assms by (rule encrypt_buf_layout)
  have len: "length_prefix ?buf = ?l"
    using assms(2) by (intro length_prefix_encoded) auto
  have "nat (2 + ?l) = 2 + length bs" by simp
  then have "u8_slice ?buf 2 (nat (2 + length_prefix ?buf)) = bs"
    unfolding len by (simp only: u8_slice_payload)
  with enc that show thesis by blast
qed

lemma decode_encode_parse:
  assumes "stringify_utf8 lib x = Inr bs" and "length bs < 65534"
  shows "decode_encode lib x =
           (case parse_utf8 lib bs of None \<Rightarrow> Inl SyntaxError | Some v \<Rightarrow> Inr v)"
proof -
  from encrypt_buf_payload [OF assms] obtain buf
    where "encrypt_buf lib x = Inr buf"
      and "u8_slice buf 2 (nat (2 + length_prefix buf)) = bs" by blast
  then show ?thesis by (simp add: decode_encode_def decrypt_buf_def Let_def)
qed

subsection \<open>Adding seconds to a date\<close>

lemma day_split: "Day t * 86400000 + HourFromTime t * 3600000 + MinFromTime t * 60000
     + SecFromTime t * 1000 + msFromTime t = t"
proof -
  define a where "a = t div 1000"
  define b where "b = a div 60"
  define c where "c = b div 60"
  define d where "d = c div 24"
  have b': "t div 60000 = b"
    using zdiv_zmult2_eq [of 60 t 1000] by (simp add: a_def b_def)
  have c': "t div 3600000 = c"
    using zdiv_zmult2_eq [of 60 t 60000] by (simp add: b' c_def)
  have d': "t div 86400000 = d"
    using zdiv_zmult2_eq [of 24 t 3600000] by (simp add: c' d_def)
  have "t = a * 1000 + t mod 1000" by (simp add: a_def)
  moreover have "a = b * 60 + a mod 60" by (simp add: b_def)
  moreover have "b = c * 60 + b mod 60" by (simp add: c_def)
  moreover have "c = d * 24 + c mod 24" by (simp add: d_def)
  ultimately have "d * 86400000 + (c mod 24) * 3600000 + (b mod 60) * 60000
     + (a mod 60) * 1000 + t mod 1000 = t" by linarith
  then show ?thesis
    by (simp add: Day_def HourFromTime_def MinFromTime_def SecFromTime_def msFromTime_def
        b' c' d' flip: a_def)
qed

text \<open>
  \<^verbatim>\<open>t.setSeconds(t.getSeconds() + k)\<close> adds \<open>k\<close> seconds to the local time and
  converts back with the offset in force at the local time it arrives at.
\<close>

lemma Date_setSeconds_add:
  "Date_setSeconds tza t (Date_getSeconds tza t + k) =
     t + 1000 * k + (tza t True - tza (t + tza t True + 1000 * k) False)"
proof -
  let ?lt = "LocalTime tza t"
  have "MakeDate (Day ?lt) (MakeTime (HourFromTime ?lt) (MinFromTime ?lt)
          (SecFromTime ?lt + k) (msFromTime ?lt)) = ?lt + 1000 * k"
    using day_split [of ?lt] by (simp add: MakeDate_def MakeTime_def algebra_simps)
  then show ?thesis
    by (simp add: Date_setSeconds_def Date_getSeconds_def Let_def UTC_def LocalTime_def)
qed

text \<open>
  Across the change of \<open>autumn_zone\<close>, adding 300 seconds at 00:58 UTC gives
  02:03 UTC, and adding 300 seconds at 01:10 UTC gives 00:15 UTC.
\<close>

lemma Date_setSeconds_autumn:
  "Date_setSeconds autumn_zone 3480000 (Date_getSeconds autumn_zone 3480000 + 300) = 7380000"
  "Date_setSeconds autumn_zone 4200000 (Date_getSeconds autumn_zone 4200000 + 300) = 900000"
  by (simp_all add: Date_setSeconds_add autumn_zone_def)

lemma Date_setSeconds_add_same_offset:
  assumes "tza t True = tza (t + tza t True + 1000 * k) False"
  shows "Date_setSeconds tza t (Date_getSeconds tza t + k) = t + 1000 * k"
  using assms by (simp add: Date_setSeconds_add)

subsection \<open>Slack after the payload, and the codec instance on long strings\<close>

lemma succ_mod_512: "(l + 1) mod 512 = 511 \<longleftrightarrow> l mod 512 = (510::int)"
proof
  assume "(l + 1) mod 512 = 511"
  then have "(l + 1 - 1) mod 512 = (511 - 1) mod 512"
    by (metis mod_diff_left_eq)
  then show "l mod 512 = 510" by simp
next
  assume "l mod 512 = 510"
  then have "(l + 1) mod 512 = (510 + 1) mod 512"
    by (metis mod_add_left_eq)
  then show "(l + 1) mod 512 = 511" by simp
qed

lemma paddedLength_slack:
  assumes "0 \<le> l" "l < 65534"
  shows "l + 3 \<le> paddedLength l \<longleftrightarrow> l mod 512 \<noteq> 510"
proof -
  define q where "q = (l + 1) div 512"
  define r where "r = (l + 1) mod 512"
  have p: "paddedLength l = q * 512 + 512"
    using paddedLength_eq [OF assms] by (simp add: algebra_simps q_def)
  have d: "q * 512 + r = l + 1" unfolding q_def r_def by (rule div_mult_mod_eq)
  have r: "0 \<le> r" "r < 512" by (simp_all add: r_def)
  have "l + 3 \<le> paddedLength l \<longleftrightarrow> r \<noteq> 511"
    using p d r by linarith
  then show ?thesis unfolding r_def by (simp only: succ_mod_512)
qed

lemma stringify_replicate_a:
  "stringify_utf8 string_lib (replicate n (CHR ''a'')) = Inr (0x22 # replicate n 0x61 @ [0x22])"
proof -
  have e: "JSON_escape (CHR ''a'') = [CHR ''a'']" by (simp add: JSON_escape_def)
  have "concat (map JSON_escape (replicate n (CHR ''a''))) = replicate n (CHR ''a'')"
    by (induction n) (simp_all add: e)
  then show ?thesis
    by (simp add: string_lib_def JSON_quote_def bytes_of_def)
qed

lemma encrypt_buf_returns:
  assumes "stringify_utf8 lib x = Inr bs" and "length bs < 65534"
  obtains buf where "encrypt_buf lib x = Inr buf"
    and "int (length buf) = paddedLength (int (length bs))"
proof -
  from encrypt_buf_layout [OF assms] obtain buf where b: "encrypt_buf lib x = Inr buf"
    by blast
  with encrypt_buf_length [OF assms b] that show thesis by blast
qed

lemma encrypt_client_TooLarge:
  assumes "module c = Some m"
  shows "encrypt lib c a x = Inl TooLarge \<longleftrightarrow> encrypt_buf lib x = Inl TooLarge"
  using assms by (auto simp: encrypt_def split: sum.splits)

subsection \<open>Slices of the buffer that \<^verbatim>\<open>decrypt\<close> receives\<close>

lemma u8_slice_clamped:
  assumes "length buf \<le> fin"
  shows "u8_slice buf 2 fin = drop 2 buf"
  using assms by (simp add: u8_slice_def Let_def min_def)

lemma u8_slice_take_drop:
  "2 \<le> fin \<Longrightarrow> u8_slice buf 2 fin = take (fin - 2) (drop 2 buf)"
  by (auto simp: u8_slice_def Let_def min_def)

lemma decrypt_buf_results:
  "decrypt_buf lib buf = Inl SyntaxError \<or> (\<exists>v. decrypt_buf lib buf = Inr v)"
  by (simp add: decrypt_buf_def Let_def split: option.split)

lemma u8_slice_of_prefix:
  "u8_slice buf 2 (2 + n) = drop 2 (take (2 + n) buf)"
  by (simp add: u8_slice_take_drop drop_take)

lemma length_prefix_of_prefix:
  assumes "2 \<le> n" "take n b1 = take n b2"
  shows "length_prefix b1 = length_prefix b2"
proof -
  have "take 2 b1 = take 2 b2"
    using assms by (metis min.absorb1 take_take)
  moreover have "u8_operand b i = u8_operand (take 2 b) i" if "i < 2" for b i
    using that by (simp add: u8_operand_def)
  ultimately have "u8_operand b1 i = u8_operand b2 i" if "i < 2" for i
    using that by metis
  then have "u8_operand b1 0 = u8_operand b2 0" "u8_operand b1 1 = u8_operand b2 1"
    by simp_all
  then show ?thesis by (simp add: length_prefix_def)
qed

subsection \<open>The two branches of \<^verbatim>\<open>requestToken\<close>\<close>

lemma ls_get_same: "ls_get st key key = st key"
  by (simp add: ls_get_def)

lemma requestToken_hit:
  assumes "localStorage c" and "storage w (JSON_stringify attribute) = Some e"
    and "\<not> cache_miss (Some e) (clock w)"
  shows "requestToken irma c attribute w = (Inr (token e), w)"
  using assms by (simp add: requestToken_def Let_def ls_get_same)

lemma requestToken_miss:
  assumes "localStorage c" and "cache_miss (storage w (JSON_stringify attribute)) (clock w)"
  shows "requestToken irma c attribute w =
     (case irma_requestToken irma c attribute w of
        (Inl e, w') \<Rightarrow> (Inl e, w')
      | (Inr tok, w') \<Rightarrow>
          (Inr (Some tok),
           w'\<lparr>storage := (storage w')(JSON_stringify attribute \<mapsto>
                  \<lparr>token = Some tok,
                   validUntil = Some (Date_setSeconds (LocalTZA w') (clock w')
                     (Date_getSeconds (LocalTZA w') (clock w') + max_age (params c)))\<rparr>)\<rparr>))"
  using assms
  by (simp add: requestToken_def Let_def ls_get_same ls_set_def
      split: prod.split sum.split)

lemma cache_miss_iff:
  "cache_miss cached now \<longleftrightarrow>
     (case cached of
        None \<Rightarrow> True
      | Some e \<Rightarrow> Object_keys e = [] \<or> (\<exists>v. validUntil e = Some v \<and> v \<noteq> 0 \<and> v \<le> now))"
  by (simp add: cache_miss_def split: option.split)

lemma keys_of_validUntil: "validUntil e = Some v \<Longrightarrow> Object_keys e \<noteq> []"
  by (simp add: Object_keys_def split: option.split)

lemma cache_miss_spec:
  "cache_miss cached now \<longleftrightarrow>
     \<not> spec_cache_valid cached now \<and> (\<forall>e. cached = Some e \<longrightarrow> validUntil e \<noteq> Some 0)"
  by (cases cached)
     (auto simp: cache_miss_def spec_cache_valid_def Object_keys_def split: option.splits)

subsection \<open>The text of an attribute and the order of its properties\<close>

lemma get_prop_Cons:
  "get_prop ((k, v) # ps) name = (if name = k then v else get_prop ps name)"
  by (simp add: get_prop_def)

lemma JSON_members_defined:
  "JSON_members a = map (\<lambda>(k, v). JSON_quote k @ '':'' @ JSON_quote v) (defined_props a)"
  by (induction a rule: JSON_members.induct) simp_all

lemma defined_props_keys: "set (map fst (defined_props a)) \<subseteq> set (map fst a)"
  by (induction a rule: defined_props.induct) auto

lemma defined_props_distinct:
  "distinct (map fst a) \<Longrightarrow> distinct (map fst (defined_props a))"
proof (induction a rule: defined_props.induct)
  case (3 k v ps)
  then show ?case using defined_props_keys [of ps] by auto
qed simp_all

lemma map_of_defined_props:
  "distinct (map fst a) \<Longrightarrow> map_of (defined_props a) k = get_prop a k"
proof (induction a rule: defined_props.induct)
  case 1
  then show ?case by (simp add: get_prop_def)
next
  case (2 k' ps)
  have "k' \<notin> set (map fst (defined_props ps))"
    using 2(2) defined_props_keys [of ps] by auto
  then have "map_of (defined_props ps) k' = None"
    by (simp add: map_of_eq_None_iff)
  moreover have "map_of ps k' = None"
    using 2(2) by (simp add: map_of_eq_None_iff)
  then have "get_prop ps k' = None" by (simp add: get_prop_def)
  ultimately show ?case using 2 by (simp add: get_prop_Cons)
next
  case (3 k' v ps)
  then show ?case by (simp add: get_prop_Cons)
qed

lemma two_keys:
  assumes "distinct ks" and "set ks \<subseteq> {x, y}"
  shows "ks = [] \<or> ks = [x] \<or> ks = [y] \<or> ks = [x, y] \<or> ks = [y, x]"
proof (cases ks)
  case Nil
  then show ?thesis by simp
next
  case (Cons k1 r1)
  note c1 = this
  show ?thesis
  proof (cases r1)
    case Nil
    then show ?thesis using assms c1 by auto
  next
    case (Cons k2 r2)
    note c2 = this
    show ?thesis
    proof (cases r2)
      case Nil
      then show ?thesis using assms c1 c2 by auto
    next
      case (Cons k3 r3)
      then have False using assms c1 c2 by auto
      then show ?thesis ..
    qed
  qed
qed

lemma same_values_same_list:
  assumes "map fst xs = map fst ys" and "distinct (map fst xs)"
    and "\<forall>k \<in> set (map fst xs). map_of xs k = map_of ys k"
  shows "xs = ys"
  using assms
proof (induction xs arbitrary: ys)
  case Nil
  then show ?case by simp
next
  case (Cons p xs)
  obtain k v where p: "p = (k, v)" by (cases p)
  from Cons.prems(1) obtain q ys' where ys: "ys = q # ys'" by (cases ys) auto
  obtain v' where q: "q = (k, v')" using Cons.prems(1) p ys by (cases q) auto
  have "k \<in> set (map fst (p # xs))" by (simp add: p)
  then have "map_of (p # xs) k = map_of ys k" using Cons.prems(3) by blast
  then have v: "v = v'" by (simp add: p ys q)
  have "\<forall>n \<in> set (map fst xs). map_of xs n = map_of ys' n"
  proof
    fix n assume n: "n \<in> set (map fst xs)"
    then have "n \<noteq> k" using Cons.prems(2) p by auto
    moreover have "n \<in> set (map fst (p # xs))" using n by simp
    then have "map_of (p # xs) n = map_of ys n" using Cons.prems(3) by blast
    ultimately show "map_of xs n = map_of ys' n" by (simp add: p ys q)
  qed
  moreover have "map fst xs = map fst ys'" using Cons.prems(1) ys by simp
  moreover have "distinct (map fst xs)" using Cons.prems(2) by simp
  ultimately have "xs = ys'" by (rule Cons.IH [rotated 2])
  then show ?case by (simp add: p ys q v)
qed

lemma quote_type: "JSON_quote ''type'' = [CHR 0x22, CHR ''t'', CHR ''y'', CHR ''p'', CHR ''e'', CHR 0x22]"
  by (simp add: JSON_quote_def JSON_escape_def)

lemma quote_value:
  "JSON_quote ''value'' = [CHR 0x22, CHR ''v'', CHR ''a'', CHR ''l'', CHR ''u'', CHR ''e'', CHR 0x22]"
  by (simp add: JSON_quote_def JSON_escape_def)

lemma stringify_first_name:
  assumes "map fst (defined_props a) = k # ks"
  shows "\<exists>r. JSON_stringify a = ''{'' @ JSON_quote k @ r"
proof -
  from assms obtain v ps where d: "defined_props a = (k, v) # ps"
    by (cases "defined_props a") auto
  show ?thesis
  proof (cases ps)
    case Nil
    then show ?thesis by (simp add: JSON_stringify_def JSON_members_defined d)
  next
    case (Cons q qs)
    then show ?thesis by (simp add: JSON_stringify_def JSON_members_defined d)
  qed
qed

lemma stringify_type_first:
  assumes "map fst (defined_props a) = ''type'' # ks"
  shows "JSON_stringify a ! 2 = CHR ''t''"
proof -
  from stringify_first_name [OF assms] obtain r
    where "JSON_stringify a = ''{'' @ JSON_quote ''type'' @ r" by blast
  then show ?thesis by (simp add: quote_type)
qed

lemma stringify_value_first:
  assumes "map fst (defined_props a) = ''value'' # ks"
  shows "JSON_stringify a ! 2 = CHR ''v''"
proof -
  from stringify_first_name [OF assms] obtain r
    where "JSON_stringify a = ''{'' @ JSON_quote ''value'' @ r" by blast
  then show ?thesis by (simp add: quote_value)
qed

lemma swapped_or_equal:
  assumes "distinct ka" "distinct kb" "set ka \<subseteq> {x, y}" "set ka = set kb" "x \<noteq> y" "ka \<noteq> kb"
  shows "(ka = [x, y] \<and> kb = [y, x]) \<or> (ka = [y, x] \<and> kb = [x, y])"
proof -
  have b: "set kb \<subseteq> {x, y}" using assms(3,4) by simp
  from two_keys [OF assms(1,3)] two_keys [OF assms(2) b] assms(4,5,6)
  show ?thesis by auto
qed

section \<open>The payload codec\<close>

text \<open>
  Claim C4 (padded-length formula). For every serialized length \<open>len\<close> with
  \<open>0 \<le> len < 65534\<close>, the length \<^verbatim>\<open>(((len + 1) >> 9) + 1) << 9\<close> that
  \<^verbatim>\<open>encrypt\<close> computes is the smallest multiple of 512 strictly greater than
  \<open>len + 1\<close>; in particular it is a positive multiple of 512.
\<close>

theorem paddedLength_least_multiple:
  assumes "0 \<le> len" and "len < 65534"
  shows "paddedLength len = ((len + 1) div 512 + 1) * 512
       \<and> paddedLength len mod 512 = 0
       \<and> len + 1 < paddedLength len
       \<and> (\<forall>m. m mod 512 = 0 \<and> len + 1 < m \<longrightarrow> paddedLength len \<le> m)
       \<and> 0 < paddedLength len"
proof -
  let ?q = "(len + 1) div 512"
  have p: "paddedLength len = (?q + 1) * 512" using assms by (rule paddedLength_eq)
  have gt: "len + 2 \<le> paddedLength len" and pos: "512 \<le> paddedLength len"
    and dv: "paddedLength len mod 512 = 0"
    using paddedLength_bounds [OF assms] by auto
  have least: "paddedLength len \<le> m" if m: "m mod 512 = 0" "len + 1 < m" for m
  proof -
    have "m = (m div 512) * 512" using m(1) by auto
    moreover have "?q * 512 \<le> len + 1"
      using div_mult_mod_eq [of "len + 1" 512] pos_mod_sign [of 512 "len + 1"] by linarith
    ultimately have "?q * 512 < (m div 512) * 512" using m(2) by linarith
    then have "?q < m div 512" by simp
    then have "(?q + 1) * 512 \<le> (m div 512) * 512" by simp
    then show ?thesis using p \<open>m = (m div 512) * 512\<close> by linarith
  qed
  show ?thesis using p gt pos dv least by auto
qed

text \<open>At \<open>len = 510\<close> the padded length is 512.\<close>

theorem paddedLength_least_multiple_witness:
  "(0::int) \<le> 510 \<and> (510::int) < 65534 \<and> paddedLength 510 = 512"
  using paddedLength_least_multiple [of 510] by simp

text \<open>
  Claim C1 (round trip), as stated: for every value \<open>x\<close> whose serialization has
  fewer than 65534 bytes, unpacking the buffer built for \<open>x\<close> gives a value equal
  to \<open>x\<close>. It fails for \<^verbatim>\<open>NaN\<close>, which is serialized as the four bytes of
  \<^verbatim>\<open>null\<close> and comes back as \<^verbatim>\<open>null\<close>, and for \<^verbatim>\<open>undefined\<close>, for which a
  buffer with an empty payload is built that does not parse.
\<close>

theorem roundtrip_counterexample:
  "stringify_utf8 js_lib JNaN = Inr [0x6E, 0x75, 0x6C, 0x6C]
   \<and> decode_encode js_lib JNaN = Inr JNull
   \<and> stringify_utf8 js_lib JUndefined = Inr []
   \<and> decode_encode js_lib JUndefined = Inl SyntaxError"
proof -
  have s1: "stringify_utf8 js_lib JNaN = Inr [0x6E, 0x75, 0x6C, 0x6C]" by code_simp
  have p1: "parse_utf8 js_lib [0x6E, 0x75, 0x6C, 0x6C] = Some JNull" by code_simp
  have s2: "stringify_utf8 js_lib JUndefined = Inr []" by code_simp
  have p2: "parse_utf8 js_lib [] = None" by code_simp
  have "decode_encode js_lib JNaN = Inr JNull"
    using decode_encode_parse [OF s1] p1 by simp
  moreover have "decode_encode js_lib JUndefined = Inl SyntaxError"
    using decode_encode_parse [OF s2] p2 by simp
  ultimately show ?thesis using s1 s2 by (intro conjI)
qed

text \<open>
  Claim C1, amended. For every value \<open>x\<close> whose serialization has fewer than
  65534 bytes, the buffer is built, the bytes taken from it (from offset 2, as many
  as the big-endian length in bytes 0 and 1 says) are exactly the serialization of
  \<open>x\<close>, and unpacking gives the result of parsing that serialization. It gives
  \<open>x\<close> back exactly when \<^verbatim>\<open>JSON.parse\<close> recovers \<open>x\<close> from its own
  serialization.
\<close>

theorem roundtrip:
  assumes "stringify_utf8 lib x = Inr bs" and "length bs < 65534"
  shows "\<exists>buf. encrypt_buf lib x = Inr buf
            \<and> u8_slice buf 2 (nat (2 + length_prefix buf)) = bs
            \<and> decrypt_buf lib buf =
                (case parse_utf8 lib bs of None \<Rightarrow> Inl SyntaxError | Some v \<Rightarrow> Inr v)
            \<and> (decrypt_buf lib buf = Inr x \<longleftrightarrow> parse_utf8 lib bs = Some x)"
proof -
  from encrypt_buf_payload [OF assms] obtain buf
    where enc: "encrypt_buf lib x = Inr buf"
      and payload: "u8_slice buf 2 (nat (2 + length_prefix buf)) = bs" by blast
  have dec: "decrypt_buf lib buf =
      (case parse_utf8 lib bs of None \<Rightarrow> Inl SyntaxError | Some v \<Rightarrow> Inr v)"
    by (simp add: decrypt_buf_def Let_def payload)
  have "decrypt_buf lib buf = Inr x \<longleftrightarrow> parse_utf8 lib bs = Some x"
    unfolding dec by (simp split: option.split)
  with enc payload dec show ?thesis by blast
qed

text \<open>The string \<^verbatim>\<open>"abc"\<close> is serialized as five bytes and comes back.\<close>

theorem roundtrip_witness:
  "stringify_utf8 string_lib ''abc'' = Inr [0x22, 0x61, 0x62, 0x63, 0x22]
   \<and> length [0x22, 0x61, 0x62, 0x63, 0x22 :: byte] < 65534
   \<and> parse_utf8 string_lib [0x22, 0x61, 0x62, 0x63, 0x22] = Some ''abc''
   \<and> (\<exists>buf. encrypt_buf string_lib ''abc'' = Inr buf \<and> decrypt_buf string_lib buf = Inr ''abc'')"
proof -
  have s: "stringify_utf8 string_lib ''abc'' = Inr [0x22, 0x61, 0x62, 0x63, 0x22]"
    by code_simp
  have p: "parse_utf8 string_lib [0x22, 0x61, 0x62, 0x63, 0x22] = Some ''abc''"
    by code_simp
  have l: "length [0x22, 0x61, 0x62, 0x63, 0x22 :: byte] < 65534" by simp
  from roundtrip [OF s l] p
  have "\<exists>buf. encrypt_buf string_lib ''abc'' = Inr buf \<and> decrypt_buf string_lib buf = Inr ''abc''"
    by auto
  with s l p show ?thesis by (intro conjI)
qed

text \<open>
  Claim C5 (size boundary). Building the buffer fails with
  \<^verbatim>\<open>Error('Too large to encrypt')\<close> exactly when the serialized form has 65534
  bytes or more. Below that no size error is raised, and bytes 0 and 1 of the buffer
  hold the length as a big-endian 16-bit number.
\<close>

theorem size_boundary:
  assumes "stringify_utf8 lib x = Inr bs"
  shows "(encrypt_buf lib x = Inl TooLarge \<longleftrightarrow> 65534 \<le> length bs)
       \<and> (length bs < 65534 \<longrightarrow>
            (\<exists>buf. encrypt_buf lib x = Inr buf \<and> 2 \<le> length buf
                 \<and> uint (buf ! 0) * 256 + uint (buf ! 1) = int (length bs)))
       \<and> (\<forall>c a. module c \<noteq> None \<longrightarrow>
            (encrypt lib c a x = Inl TooLarge \<longleftrightarrow> 65534 \<le> length bs))"
proof -
  have large: "encrypt_buf lib x = Inl TooLarge \<longleftrightarrow> 65534 \<le> length bs"
  proof (cases "length bs < 65534")
    case True
    then obtain buf where "encrypt_buf lib x = Inr buf"
      using encrypt_buf_layout [OF assms] by blast
    then show ?thesis using True by simp
  next
    case False
    then have "encrypt_buf lib x = Inl TooLarge"
      by (simp add: encrypt_buf_def assms)
    then show ?thesis using False by simp
  qed
  have small: "\<exists>buf. encrypt_buf lib x = Inr buf \<and> 2 \<le> length buf
                 \<and> uint (buf ! 0) * 256 + uint (buf ! 1) = int (length bs)"
    if lt: "length bs < 65534"
  proof -
    let ?l = "int (length bs)"
    let ?buf = "ToUint8 (?l div 256) # ToUint8 (?l mod 256) # bs
                  @ replicate (nat (paddedLength ?l) - 2 - length bs) 0"
    have enc: "encrypt_buf lib x = Inr ?buf"
      using assms lt by (rule encrypt_buf_layout)
    have "length_prefix ?buf = ?l"
      using lt by (intro length_prefix_encoded) auto
    then have "uint (?buf ! 0) * 256 + uint (?buf ! 1) = ?l"
      by (simp add: length_prefix_eq)
    moreover have "2 \<le> length ?buf" by simp
    ultimately show ?thesis using enc by blast
  qed
  have client: "encrypt lib c a x = Inl TooLarge \<longleftrightarrow> 65534 \<le> length bs"
    if "module c \<noteq> None" for c a
  proof -
    from that obtain m where m: "module c = Some m" by auto
    show ?thesis unfolding encrypt_client_TooLarge [OF m] by (rule large)
  qed
  show ?thesis using large small client by (intro conjI allI impI)
qed

text \<open>A string of 65532 letters is too large by one byte; one of 65531 letters is not.\<close>

theorem size_boundary_witness:
  "stringify_utf8 string_lib (replicate 65532 (CHR ''a'')) = Inr (0x22 # replicate 65532 0x61 @ [0x22])
   \<and> encrypt_buf string_lib (replicate 65532 (CHR ''a'')) = Inl TooLarge
   \<and> stringify_utf8 string_lib (replicate 65531 (CHR ''a'')) = Inr (0x22 # replicate 65531 0x61 @ [0x22])
   \<and> encrypt_buf string_lib (replicate 65531 (CHR ''a'')) \<noteq> Inl TooLarge"
  using size_boundary [OF stringify_replicate_a [of 65532]]
    size_boundary [OF stringify_replicate_a [of 65531]]
    stringify_replicate_a [of 65532] stringify_replicate_a [of 65531]
  by simp

text \<open>
  Claim C7 (padding slack), as stated: the buffer length is a multiple of 512 and at
  least \<open>len + 2 + 1\<close>. It fails for a serialized length of 510: the buffer has 512
  bytes, exactly the two-byte prefix and the payload.
\<close>

theorem padding_slack_counterexample:
  "map_sum id length (stringify_utf8 string_lib (replicate 508 (CHR ''a''))) = Inr 510
   \<and> map_sum id length (encrypt_buf string_lib (replicate 508 (CHR ''a''))) = Inr 512
   \<and> \<not> (510 + 2 + 1 \<le> (512::nat))"
proof -
  let ?bs = "0x22 # replicate 508 (0x61::byte) @ [0x22]"
  have s: "stringify_utf8 string_lib (replicate 508 (CHR ''a'')) = Inr ?bs"
    by (rule stringify_replicate_a)
  have l: "length ?bs = 510" by simp
  then have "length ?bs < 65534" by linarith
  from encrypt_buf_returns [OF s this] obtain buf
    where b: "encrypt_buf string_lib (replicate 508 (CHR ''a'')) = Inr buf"
      and n: "int (length buf) = paddedLength (int (length ?bs))" by blast
  have "paddedLength 510 = 512" by (simp add: paddedLength_eq)
  then have "int (length buf) = 512" using n unfolding l by simp
  then have "length buf = 512" by linarith
  then show ?thesis unfolding s b using l by simp
qed

text \<open>
  Claim C7, amended. The buffer length is a multiple of 512 and at least
  \<open>len + 2\<close>: prefix and payload always fit. There is a spare byte after the
  payload exactly when \<open>len mod 512\<close> is not 510.
\<close>

theorem padding_fits:
  assumes "stringify_utf8 lib x = Inr bs" and "length bs < 65534"
  shows "\<exists>buf. encrypt_buf lib x = Inr buf
            \<and> length buf mod 512 = 0
            \<and> length bs + 2 \<le> length buf
            \<and> (length bs + 2 + 1 \<le> length buf \<longleftrightarrow> length bs mod 512 \<noteq> 510)"
proof -
  let ?l = "int (length bs)"
  from encrypt_buf_returns [OF assms] obtain buf
    where enc: "encrypt_buf lib x = Inr buf"
      and len: "int (length buf) = paddedLength ?l" by blast
  have l: "0 \<le> ?l" "?l < 65534" using assms(2) by auto
  have "int (length buf) mod 512 = 0"
    using paddedLength_bounds(3) [OF l] by (simp only: len)
  then have "int (length buf mod 512) = 0" by (simp only: zmod_int of_nat_numeral)
  then have m1: "length buf mod 512 = 0" by (simp only: of_nat_eq_0_iff)
  have m2: "length bs + 2 \<le> length buf"
    using paddedLength_bounds(1) [OF l] len by linarith
  define k where "k = length bs mod 512"
  have "?l mod 512 = int k" by (simp only: k_def zmod_int of_nat_numeral)
  moreover have "int k \<noteq> 510 \<longleftrightarrow> k \<noteq> 510" by linarith
  ultimately have e: "?l mod 512 \<noteq> 510 \<longleftrightarrow> k \<noteq> 510" by (simp only:)
  have s: "?l + 3 \<le> int (length buf) \<longleftrightarrow> ?l mod 512 \<noteq> 510"
    using paddedLength_slack [OF l] by (simp only: len)
  have "length bs + 2 + 1 \<le> length buf \<longleftrightarrow> ?l + 3 \<le> int (length buf)" by linarith
  then have m3: "length bs + 2 + 1 \<le> length buf \<longleftrightarrow> length bs mod 512 \<noteq> 510"
    unfolding s e k_def .
  show ?thesis by (intro exI [of _ buf] conjI enc m1 m2 m3)
qed

text \<open>At a serialized length of 510 the buffer is full.\<close>

theorem padding_fits_witness:
  "stringify_utf8 string_lib (replicate 508 (CHR ''a'')) = Inr (0x22 # replicate 508 0x61 @ [0x22])
   \<and> length (0x22 # replicate 508 (0x61::byte) @ [0x22]) < 65534
   \<and> (\<exists>buf. encrypt_buf string_lib (replicate 508 (CHR ''a'')) = Inr buf
          \<and> length buf mod 512 = 0 \<and> 510 + 2 \<le> length buf \<and> \<not> 510 + 2 + 1 \<le> length buf)"
proof -
  let ?bs = "0x22 # replicate 508 (0x61::byte) @ [0x22]"
  have s: "stringify_utf8 string_lib (replicate 508 (CHR ''a'')) = Inr ?bs"
    by (rule stringify_replicate_a)
  have l: "length ?bs = 510" by simp
  then have small: "length ?bs < 65534" by linarith
  have "(510::nat) mod 512 = 510" by simp
  with padding_fits [OF s small] have
    "\<exists>buf. encrypt_buf string_lib (replicate 508 (CHR ''a'')) = Inr buf
          \<and> length buf mod 512 = 0 \<and> 510 + 2 \<le> length buf \<and> \<not> 510 + 2 + 1 \<le> length buf"
    unfolding l by (simp only: simp_thms)
  with s small show ?thesis by (intro conjI)
qed

text \<open>
  Claim C8 (malformed payloads), as stated: when the length prefix \<open>len\<close> has
  \<open>len + 2 > buffer.length\<close>, unpacking fails. It does not: \<^verbatim>\<open>decrypt\<close> makes no
  such check, and \<^verbatim>\<open>slice\<close> stops at the end of the buffer. The five-byte buffer
  \<^verbatim>\<open>00 05 22 61 22\<close> announces five payload bytes, holds three, and unpacks to the
  string \<^verbatim>\<open>a\<close>.
\<close>

theorem decrypt_no_length_check_counterexample:
  "int (length [0, 5, 0x22, 0x61, 0x22 :: byte]) < length_prefix [0, 5, 0x22, 0x61, 0x22] + 2
   \<and> decrypt_buf string_lib [0, 5, 0x22, 0x61, 0x22] = Inr ''a''"
proof -
  have p: "length_prefix [0, 5, 0x22, 0x61, 0x22] = 5"
    by (simp add: length_prefix_eq)
  have s: "u8_slice [0, 5, 0x22, 0x61, 0x22] 2 7 = [0x22, 0x61, 0x22]"
    by (simp add: u8_slice_def)
  have "parse_utf8 string_lib [0x22, 0x61, 0x22] = Some ''a''"
    by code_simp
  then show ?thesis by (simp add: decrypt_buf_def p s)
qed

text \<open>
  Claim C8, amended. When \<open>len + 2 > buffer.length\<close>, the result is that of parsing
  all the bytes from offset 2 on. For every buffer, unpacking fails exactly when the
  bytes from offset 2 up to \<open>2 + len\<close> (or up to the end of the buffer, if that comes
  first) do not parse, and the only failure is the \<^verbatim>\<open>SyntaxError\<close> of
  \<^verbatim>\<open>JSON.parse\<close>.
\<close>

theorem decrypt_buf_parses_available_bytes:
  "(int (length buf) < length_prefix buf + 2 \<longrightarrow>
      decrypt_buf lib buf =
        (case parse_utf8 lib (drop 2 buf) of None \<Rightarrow> Inl SyntaxError | Some v \<Rightarrow> Inr v))
   \<and> (decrypt_buf lib buf = Inl SyntaxError \<longleftrightarrow>
        parse_utf8 lib (take (nat (length_prefix buf)) (drop 2 buf)) = None)
   \<and> (\<forall>e. decrypt_buf lib buf = Inl e \<longrightarrow> e = SyntaxError)"
proof -
  let ?len = "length_prefix buf"
  have nn: "0 \<le> ?len" by (rule length_prefix_range)
  then have sl: "u8_slice buf 2 (nat (2 + ?len)) = take (nat ?len) (drop 2 buf)"
    by (simp add: u8_slice_take_drop nat_add_distrib)
  have a: "decrypt_buf lib buf =
        (case parse_utf8 lib (drop 2 buf) of None \<Rightarrow> Inl SyntaxError | Some v \<Rightarrow> Inr v)"
    if "int (length buf) < ?len + 2"
  proof -
    have "length buf \<le> nat (2 + ?len)" using that by linarith
    then have "u8_slice buf 2 (nat (2 + ?len)) = drop 2 buf" by (rule u8_slice_clamped)
    then show ?thesis by (simp add: decrypt_buf_def Let_def)
  qed
  have b: "decrypt_buf lib buf = Inl SyntaxError \<longleftrightarrow>
        parse_utf8 lib (take (nat ?len) (drop 2 buf)) = None"
    by (simp add: decrypt_buf_def Let_def sl split: option.split)
  have c: "\<forall>e. decrypt_buf lib buf = Inl e \<longrightarrow> e = SyntaxError"
    using decrypt_buf_results [of lib buf] by auto
  show ?thesis using a b c by (intro conjI impI) 
qed

text \<open>A three-byte buffer that announces two payload bytes and holds a lone quote.\<close>

theorem decrypt_buf_parses_available_bytes_witness:
  "int (length [0, 2, 0x22 :: byte]) < length_prefix [0, 2, 0x22] + 2
   \<and> parse_utf8 string_lib (drop 2 [0, 2, 0x22]) = None
   \<and> decrypt_buf string_lib [0, 2, 0x22] = Inl SyntaxError"
proof -
  have p: "length_prefix [0, 2, 0x22] = 2"
    by (simp add: length_prefix_eq)
  have n: "parse_utf8 string_lib (drop 2 [0, 2, 0x22]) = None"
    by code_simp
  have lt: "int (length [0, 2, 0x22 :: byte]) < length_prefix [0, 2, 0x22] + 2"
    unfolding p by simp
  from decrypt_buf_parses_available_bytes [of "[0, 2, 0x22]" string_lib] lt
  have "decrypt_buf string_lib [0, 2, 0x22] =
        (case parse_utf8 string_lib (drop 2 [0, 2, 0x22]) of None \<Rightarrow> Inl SyntaxError | Some v \<Rightarrow> Inr v)"
    by blast
  then have "decrypt_buf string_lib [0, 2, 0x22] = Inl SyntaxError"
    unfolding n by simp
  with lt n show ?thesis by (intro conjI)
qed

text \<open>
  Claim C10 (padding is ignored). Two buffers of the same length that agree on the
  bytes before offset \<open>2 + len\<close>, where \<open>len\<close> is the length prefix and
  \<open>len + 2\<close> is at most the buffer length, unpack to the same result.
\<close>

theorem decrypt_ignores_padding:
  assumes "length b1 = length b2"
    and "length_prefix b1 + 2 \<le> int (length b1)"
    and "take (nat (2 + length_prefix b1)) b1 = take (nat (2 + length_prefix b1)) b2"
  shows "decrypt_buf lib b1 = decrypt_buf lib b2"
proof -
  let ?len = "length_prefix b1"
  have nn: "0 \<le> ?len" by (rule length_prefix_range)
  then have n: "nat (2 + ?len) = 2 + nat ?len" by linarith
  have "2 \<le> nat (2 + ?len)" using nn by linarith
  then have same: "length_prefix b2 = ?len"
    using assms(3) by (rule length_prefix_of_prefix [symmetric])
  have "u8_slice b1 2 (nat (2 + ?len)) = u8_slice b2 2 (nat (2 + ?len))"
    unfolding n u8_slice_of_prefix using assms(3) unfolding n by simp
  then show ?thesis by (simp add: decrypt_buf_def Let_def same)
qed

text \<open>Two buffers that differ in their last, padding byte both unpack to \<^verbatim>\<open>a\<close>.\<close>

theorem decrypt_ignores_padding_witness:
  "length [0, 3, 0x22, 0x61, 0x22, 0 :: byte] = length [0, 3, 0x22, 0x61, 0x22, 7 :: byte]
   \<and> length_prefix [0, 3, 0x22, 0x61, 0x22, 0] + 2 \<le> int (length [0, 3, 0x22, 0x61, 0x22, 0 :: byte])
   \<and> take (nat (2 + length_prefix [0, 3, 0x22, 0x61, 0x22, 0])) [0, 3, 0x22, 0x61, 0x22, 0]
       = take (nat (2 + length_prefix [0, 3, 0x22, 0x61, 0x22, 0])) [0, 3, 0x22, 0x61, 0x22, 7 :: byte]
   \<and> decrypt_buf string_lib [0, 3, 0x22, 0x61, 0x22, 0] = Inr ''a''
   \<and> decrypt_buf string_lib [0, 3, 0x22, 0x61, 0x22, 7] = Inr ''a''"
proof -
  have p: "length_prefix [0, 3, 0x22, 0x61, 0x22, 0] = 3"
    by (simp add: length_prefix_eq)
  have a: "length [0, 3, 0x22, 0x61, 0x22, 0 :: byte] = length [0, 3, 0x22, 0x61, 0x22, 7 :: byte]"
    by simp
  have b: "length_prefix [0, 3, 0x22, 0x61, 0x22, 0] + 2 \<le> int (length [0, 3, 0x22, 0x61, 0x22, 0 :: byte])"
    unfolding p by simp
  have c: "take (nat (2 + length_prefix [0, 3, 0x22, 0x61, 0x22, 0])) [0, 3, 0x22, 0x61, 0x22, 0]
       = take (nat (2 + length_prefix [0, 3, 0x22, 0x61, 0x22, 0])) [0, 3, 0x22, 0x61, 0x22, 7 :: byte]"
    unfolding p by (simp add: numeral_eq_Suc)
  have q: "length_prefix [0, 3, 0x22, 0x61, 0x22, 7] = 3"
    by (simp add: length_prefix_eq)
  have s: "u8_slice [0, 3, 0x22, 0x61, 0x22, 7] 2 5 = [0x22, 0x61, 0x22]"
    by (simp add: u8_slice_def)
  have "parse_utf8 string_lib [0x22, 0x61, 0x22] = Some ''a''"
    by code_simp
  then have v: "decrypt_buf string_lib [0, 3, 0x22, 0x61, 0x22, 7] = Inr ''a''"
    by (simp add: decrypt_buf_def q s)
  have "decrypt_buf string_lib [0, 3, 0x22, 0x61, 0x22, 0] = Inr ''a''"
    using decrypt_ignores_padding [OF a b c, of string_lib] v by simp
  with a b c v show ?thesis by (intro conjI)
qed

section \<open>The token cache\<close>

text \<open>
  Claim C2 (cache hit), as stated: the cached entry counts as valid exactly when it
  exists, has at least one field, and has no \<^verbatim>\<open>validUntil\<close> or the current time is
  strictly before it. The test in \<^verbatim>\<open>requestToken\<close> is
  \<^verbatim>\<open>cached.validUntil && Date.now() >= cached.validUntil\<close>, so an entry whose
  \<^verbatim>\<open>validUntil\<close> is 0 is never expired: at time 1000 the rule of the claim calls
  it invalid and the code uses it.
\<close>

theorem cache_validity_counterexample:
  "\<not> spec_cache_valid (storage stale_world (JSON_stringify example_attribute)) (clock stale_world)
   \<and> \<not> cache_miss (storage stale_world (JSON_stringify example_attribute)) (clock stale_world)"
  by (simp add: stale_world_def spec_cache_valid_def cache_miss_def Object_keys_def)

text \<open>
  Claim C2, amended. With a store configured, the entry read under the serialized
  attribute counts as valid exactly when it exists, has at least one field, and has
  no \<^verbatim>\<open>validUntil\<close>, or a \<^verbatim>\<open>validUntil\<close> of 0, or the current time is strictly
  before its \<^verbatim>\<open>validUntil\<close>. Whenever it is valid, \<^verbatim>\<open>requestToken\<close> returns
  \<^verbatim>\<open>cached.token\<close> and leaves the world as it was: no session is started and
  nothing is stored. Every entry that the rule of the claim calls valid is valid in
  this sense.
\<close>

theorem cache_hit:
  assumes "localStorage c"
  shows "(\<not> cache_miss (storage w (JSON_stringify attribute)) (clock w) \<longleftrightarrow>
            (\<exists>e. storage w (JSON_stringify attribute) = Some e \<and> Object_keys e \<noteq> [] \<and>
                 (validUntil e = None \<or> validUntil e = Some 0 \<or>
                  (\<exists>v. validUntil e = Some v \<and> clock w < v))))
       \<and> (\<forall>e. storage w (JSON_stringify attribute) = Some e \<and> \<not> cache_miss (Some e) (clock w) \<longrightarrow>
            requestToken irma c attribute w = (Inr (token e), w))
       \<and> (spec_cache_valid (storage w (JSON_stringify attribute)) (clock w) \<longrightarrow>
            \<not> cache_miss (storage w (JSON_stringify attribute)) (clock w))"
proof (intro conjI allI impI)
  show "(\<not> cache_miss (storage w (JSON_stringify attribute)) (clock w)) =
            (\<exists>e. storage w (JSON_stringify attribute) = Some e \<and> Object_keys e \<noteq> [] \<and>
                 (validUntil e = None \<or> validUntil e = Some 0 \<or>
                  (\<exists>v. validUntil e = Some v \<and> clock w < v)))"
    by (cases "storage w (JSON_stringify attribute)")
       (auto simp: cache_miss_def split: option.splits)
next
  fix e
  assume "storage w (JSON_stringify attribute) = Some e \<and> \<not> cache_miss (Some e) (clock w)"
  then show "requestToken irma c attribute w = (Inr (token e), w)"
    using assms by (intro requestToken_hit) auto
next
  assume "spec_cache_valid (storage w (JSON_stringify attribute)) (clock w)"
  then show "\<not> cache_miss (storage w (JSON_stringify attribute)) (clock w)"
    by (auto simp: spec_cache_valid_def cache_miss_def split: option.splits)
qed

text \<open>An entry valid until time 5000 is used at time 1000.\<close>

theorem cache_hit_witness:
  "localStorage example_client
   \<and> storage warm_world (JSON_stringify example_attribute)
       = Some \<lparr>token = Some ''T'', validUntil = Some 5000\<rparr>
   \<and> \<not> cache_miss (Some \<lparr>token = Some ''T'', validUntil = Some 5000\<rparr>) (clock warm_world)
   \<and> requestToken fresh_irma example_client example_attribute warm_world
       = (Inr (Some ''T''), warm_world)"
proof -
  have a: "localStorage example_client" by (simp add: example_client_def)
  have b: "storage warm_world (JSON_stringify example_attribute)
       = Some \<lparr>token = Some ''T'', validUntil = Some 5000\<rparr>"
    by (simp add: warm_world_def)
  have c: "\<not> cache_miss (Some \<lparr>token = Some ''T'', validUntil = Some 5000\<rparr>) (clock warm_world)"
    by (simp add: cache_miss_def warm_world_def Object_keys_def)
  from cache_hit [OF a, of warm_world example_attribute fresh_irma] b c
  have "requestToken fresh_irma example_client example_attribute warm_world
       = (Inr (token \<lparr>token = Some ''T'', validUntil = Some 5000\<rparr>), warm_world)"
    by blast
  with a b c show ?thesis by simp
qed

text \<open>
  Claim C3 (cache miss), as stated: whenever the entry is missing or invalid, a
  fresh token is requested and stored. With invalid read as the negation of the
  validity rule of the specification, this fails for the entry whose
  \<^verbatim>\<open>validUntil\<close> is 0: the cached token is returned, no session is started and
  the store is not written.
\<close>

theorem cache_refresh_counterexample:
  "\<not> spec_cache_valid (storage stale_world (JSON_stringify example_attribute)) (clock stale_world)
   \<and> requestToken fresh_irma example_client example_attribute stale_world
       = (Inr (Some ''T''), stale_world)"
proof -
  have a: "localStorage example_client" by (simp add: example_client_def)
  have b: "storage stale_world (JSON_stringify example_attribute)
       = Some \<lparr>token = Some ''T'', validUntil = Some 0\<rparr>"
    by (simp add: stale_world_def)
  have c: "\<not> cache_miss (Some \<lparr>token = Some ''T'', validUntil = Some 0\<rparr>) (clock stale_world)"
    by (simp add: cache_miss_def Object_keys_def)
  have "\<not> spec_cache_valid (Some \<lparr>token = Some ''T'', validUntil = Some 0\<rparr>) (clock stale_world)"
    by (simp add: spec_cache_valid_def stale_world_def)
  then show ?thesis using requestToken_hit [OF a b c, of fresh_irma] b by simp
qed

text \<open>
  Claim C3, amended. With a store configured, when the entry is missing or invalid
  and its \<^verbatim>\<open>validUntil\<close> is not 0, and the collaborator yields a token,
  \<^verbatim>\<open>requestToken\<close> starts one session, stores an object
  \<^verbatim>\<open>{ token, validUntil }\<close> with the fresh token under the serialized attribute,
  replacing what was there, and returns the fresh token. When the offset of local
  time from UTC is the same at the time the session ended and at the local time
  \<^verbatim>\<open>max_age\<close> seconds later, the stored \<^verbatim>\<open>validUntil\<close> is the time at which the
  session ended plus \<^verbatim>\<open>max_age\<close> seconds; nothing is said about it otherwise.
\<close>

theorem cache_refresh:
  assumes "localStorage c"
    and "\<not> spec_cache_valid (storage w (JSON_stringify attribute)) (clock w)"
    and "\<forall>e. storage w (JSON_stringify attribute) = Some e \<longrightarrow> validUntil e \<noteq> Some 0"
    and "irma (url c) attribute w = \<lparr>outcome = Inr tok, duration = d\<rparr>"
  shows "\<exists>v. requestToken irma c attribute w =
           (Inr (Some tok),
            w\<lparr>clock := clock w + int d,
              sessions := sessions w @ [attribute],
              storage := (storage w)(JSON_stringify attribute \<mapsto>
                 \<lparr>token = Some tok, validUntil = Some v\<rparr>)\<rparr>)
         \<and> (LocalTZA w (clock w + int d) True =
              LocalTZA w (clock w + int d + LocalTZA w (clock w + int d) True
                          + 1000 * max_age (params c)) False
            \<longrightarrow> v = clock w + int d + 1000 * max_age (params c))"
proof -
  let ?now = "clock w + int d"
  let ?v = "Date_setSeconds (LocalTZA w) ?now
              (Date_getSeconds (LocalTZA w) ?now + max_age (params c))"
  have miss: "cache_miss (storage w (JSON_stringify attribute)) (clock w)"
    using assms(2,3) by (simp add: cache_miss_spec)
  have "irma_requestToken irma c attribute w =
      (Inr tok, w\<lparr>clock := ?now, sessions := sessions w @ [attribute]\<rparr>)"
    by (simp add: irma_requestToken_def assms(4) Let_def)
  then have r: "requestToken irma c attribute w =
           (Inr (Some tok),
            w\<lparr>clock := ?now,
              sessions := sessions w @ [attribute],
              storage := (storage w)(JSON_stringify attribute \<mapsto>
                 \<lparr>token = Some tok, validUntil = Some ?v\<rparr>)\<rparr>)"
    unfolding requestToken_miss [OF assms(1) miss] by simp
  have "?v = ?now + 1000 * max_age (params c)"
    if "LocalTZA w ?now True =
        LocalTZA w (?now + LocalTZA w ?now True + 1000 * max_age (params c)) False"
    using that by (rule Date_setSeconds_add_same_offset)
  with r show ?thesis by blast
qed

text \<open>
  With nothing stored at time 1000, a session of two seconds, a \<^verbatim>\<open>max_age\<close> of
  300 seconds and a clock at UTC, the token is stored as valid until time 303000.
\<close>

theorem cache_refresh_witness:
  "localStorage example_client
   \<and> \<not> spec_cache_valid (storage cold_world (JSON_stringify example_attribute)) (clock cold_world)
   \<and> storage cold_world (JSON_stringify example_attribute) = None
   \<and> fresh_irma (url example_client) example_attribute cold_world
       = \<lparr>outcome = Inr ''fresh'', duration = 2000\<rparr>
   \<and> requestToken fresh_irma example_client example_attribute cold_world =
       (Inr (Some ''fresh''),
        \<lparr>clock = 3000, LocalTZA = utc_zone,
         storage = [JSON_stringify example_attribute \<mapsto>
                      \<lparr>token = Some ''fresh'', validUntil = Some 303000\<rparr>],
         sessions = [example_attribute]\<rparr>)"
proof -
  have a: "localStorage example_client" by (simp add: example_client_def)
  have b: "\<not> spec_cache_valid (storage cold_world (JSON_stringify example_attribute)) (clock cold_world)"
    by (simp add: cold_world_def spec_cache_valid_def)
  have c: "\<forall>e. storage cold_world (JSON_stringify example_attribute) = Some e \<longrightarrow> validUntil e \<noteq> Some 0"
    by (simp add: cold_world_def)
  have d: "fresh_irma (url example_client) example_attribute cold_world
       = \<lparr>outcome = Inr ''fresh'', duration = 2000\<rparr>"
    by (simp add: fresh_irma_def)
  have m: "max_age (params example_client) = 300" by (simp add: example_client_def)
  have n: "storage cold_world (JSON_stringify example_attribute) = None"
    by (simp add: cold_world_def)
  have z: "LocalTZA cold_world = utc_zone" by (simp add: cold_world_def)
  from cache_refresh [where irma = fresh_irma, OF a b c d] obtain v
    where r: "requestToken fresh_irma example_client example_attribute cold_world =
           (Inr (Some ''fresh''),
            cold_world\<lparr>clock := clock cold_world + int 2000,
              sessions := sessions cold_world @ [example_attribute],
              storage := (storage cold_world)(JSON_stringify example_attribute \<mapsto>
                 \<lparr>token = Some ''fresh'', validUntil = Some v\<rparr>)\<rparr>)"
      and v: "LocalTZA cold_world (clock cold_world + int 2000) True =
              LocalTZA cold_world (clock cold_world + int 2000
                 + LocalTZA cold_world (clock cold_world + int 2000) True
                 + 1000 * max_age (params example_client)) False
            \<longrightarrow> v = clock cold_world + int 2000 + 1000 * max_age (params example_client)"
    by blast
  have "v = clock cold_world + int 2000 + 1000 * max_age (params example_client)"
    using v by (simp add: z utc_zone_def)
  then have "v = 303000" by (simp add: m cold_world_def)
  with r a b n d show ?thesis by (simp add: cold_world_def)
qed

text \<open>
  Claim C9 (no write on failure). If the collaborator fails during a cache miss,
  \<^verbatim>\<open>requestToken\<close> fails with the collaborator's error and the store is
  unchanged.
\<close>

theorem collaborator_failure_leaves_store:
  assumes "localStorage c"
    and "cache_miss (storage w (JSON_stringify attribute)) (clock w)"
    and "outcome (irma (url c) attribute w) = Inl msg"
  shows "fst (requestToken irma c attribute w) = Inl (External msg)
       \<and> storage (snd (requestToken irma c attribute w)) = storage w"
proof -
  have "irma_requestToken irma c attribute w =
      (Inl (External msg),
       w\<lparr>clock := clock w + int (duration (irma (url c) attribute w)),
         sessions := sessions w @ [attribute]\<rparr>)"
    by (simp add: irma_requestToken_def assms(3) Let_def)
  then show ?thesis
    unfolding requestToken_miss [OF assms(1,2)] by simp
qed

text \<open>An abandoned session with an empty store leaves the store empty.\<close>

theorem collaborator_failure_leaves_store_witness:
  "localStorage example_client
   \<and> cache_miss (storage cold_world (JSON_stringify example_attribute)) (clock cold_world)
   \<and> outcome (failing_irma (url example_client) example_attribute cold_world) = Inl ''aborted''
   \<and> fst (requestToken failing_irma example_client example_attribute cold_world)
       = Inl (External ''aborted'')
   \<and> storage (snd (requestToken failing_irma example_client example_attribute cold_world))
       = storage cold_world"
proof -
  have a: "localStorage example_client" by (simp add: example_client_def)
  have b: "cache_miss (storage cold_world (JSON_stringify example_attribute)) (clock cold_world)"
    by (simp add: cold_world_def cache_miss_def)
  have c: "outcome (failing_irma (url example_client) example_attribute cold_world) = Inl ''aborted''"
    by (simp add: failing_irma_def)
  from collaborator_failure_leaves_store [where irma = failing_irma, OF a b c] a b c show ?thesis by (intro conjI) auto
qed

text \<open>
  Claim C6 (cache-key determinism), as stated: two attributes with the same
  \<^verbatim>\<open>type\<close> and \<^verbatim>\<open>value\<close> have the same cache key, whatever the insertion order
  of their properties. The key is \<^verbatim>\<open>JSON.stringify(attribute)\<close>, which writes the
  properties in insertion order, so swapping them changes the key.
\<close>

theorem cache_key_order_counterexample:
  "get_prop [(''type'', Some ''email''), (''value'', Some ''alice'')] ''type''
     = get_prop [(''value'', Some ''alice''), (''type'', Some ''email'')] ''type''
   \<and> get_prop [(''type'', Some ''email''), (''value'', Some ''alice'')] ''value''
     = get_prop [(''value'', Some ''alice''), (''type'', Some ''email'')] ''value''
   \<and> JSON_stringify [(''type'', Some ''email''), (''value'', Some ''alice'')]
     \<noteq> JSON_stringify [(''value'', Some ''alice''), (''type'', Some ''email'')]"
proof -
  have "JSON_escape (CHR ''t'') = ''t''" "JSON_escape (CHR ''v'') = ''v''"
    by (simp_all add: JSON_escape_def)
  then have "JSON_stringify [(''type'', Some ''email''), (''value'', Some ''alice'')]
     \<noteq> JSON_stringify [(''value'', Some ''alice''), (''type'', Some ''email'')]"
    by (simp add: JSON_stringify_def JSON_quote_def)
  then show ?thesis by (simp add: get_prop_def)
qed

text \<open>
  Claim C6, amended. For two attributes whose properties are among \<^verbatim>\<open>type\<close> and
  \<^verbatim>\<open>value\<close> and that carry the same \<^verbatim>\<open>type\<close> and the same \<^verbatim>\<open>value\<close>, the
  cache keys are the same text exactly when the properties that are not
  \<^verbatim>\<open>undefined\<close> were inserted in the same order.
\<close>

theorem cache_key_iff_same_order:
  assumes "distinct (map fst a)" and "distinct (map fst b)"
    and "set (map fst a) \<subseteq> {''type'', ''value''}"
    and "set (map fst b) \<subseteq> {''type'', ''value''}"
    and "get_prop a ''type'' = get_prop b ''type''"
    and "get_prop a ''value'' = get_prop b ''value''"
  shows "JSON_stringify a = JSON_stringify b
         \<longleftrightarrow> map fst (defined_props a) = map fst (defined_props b)"
proof -
  let ?A = "defined_props a" and ?B = "defined_props b"
  have dA: "distinct (map fst ?A)" and dB: "distinct (map fst ?B)"
    using assms(1,2) by (simp_all add: defined_props_distinct)
  have sA: "set (map fst ?A) \<subseteq> {''type'', ''value''}"
    using defined_props_keys [of a] assms(3) by blast
  have sB: "set (map fst ?B) \<subseteq> {''type'', ''value''}"
    using defined_props_keys [of b] assms(4) by blast
  have m: "map_of ?A k = map_of ?B k" if "k \<in> {''type'', ''value''}" for k
    using that assms(5,6) by (auto simp: map_of_defined_props [OF assms(1)] map_of_defined_props [OF assms(2)])
  have in_A: "k \<in> set (map fst ?A) \<longleftrightarrow> k \<in> set (map fst ?B)" for k
  proof (cases "k \<in> {''type'', ''value''}")
    case True
    have "k \<in> set (map fst ?A) \<longleftrightarrow> map_of ?A k \<noteq> None"
      by (simp add: map_of_eq_None_iff)
    also have "\<dots> \<longleftrightarrow> map_of ?B k \<noteq> None" by (simp only: m [OF True])
    also have "\<dots> \<longleftrightarrow> k \<in> set (map fst ?B)"
      by (simp add: map_of_eq_None_iff)
    finally show ?thesis .
  next
    case False
    then show ?thesis using sA sB by blast
  qed
  then have same: "set (map fst ?A) = set (map fst ?B)" by blast
  show ?thesis
  proof
    assume eq: "JSON_stringify a = JSON_stringify b"
    show "map fst ?A = map fst ?B"
    proof (rule ccontr)
      assume ne: "map fst ?A \<noteq> map fst ?B"
      have "''type'' \<noteq> ''value''" by simp
      from swapped_or_equal [OF dA dB sA same this ne]
      consider "map fst ?A = [''type'', ''value'']" "map fst ?B = [''value'', ''type'']"
        | "map fst ?A = [''value'', ''type'']" "map fst ?B = [''type'', ''value'']"
        by blast
      then have "JSON_stringify a ! 2 \<noteq> JSON_stringify b ! 2"
      proof cases
        case 1
        then show ?thesis
          by (simp add: stringify_type_first [of a] stringify_value_first [of b])
      next
        case 2
        then show ?thesis
          by (simp add: stringify_type_first [of b] stringify_value_first [of a])
      qed
      then show False by (simp add: eq)
    qed
  next
    assume keys: "map fst ?A = map fst ?B"
    have "\<forall>k \<in> set (map fst ?A). map_of ?A k = map_of ?B k"
      using m sA by blast
    with keys dA have "?A = ?B" by (rule same_values_same_list)
    then show "JSON_stringify a = JSON_stringify b"
      by (simp add: JSON_stringify_def JSON_members_defined)
  qed
qed

text \<open>
  An attribute without \<^verbatim>\<open>value\<close> and one whose \<^verbatim>\<open>value\<close> is \<^verbatim>\<open>undefined\<close>
  have the same key.
\<close>

theorem cache_key_iff_same_order_witness:
  "distinct (map fst [(''type'', Some ''email'')])
   \<and> distinct (map fst [(''type'', Some ''email''), (''value'', None)])
   \<and> set (map fst [(''type'', Some ''email'')]) \<subseteq> {''type'', ''value''}
   \<and> set (map fst [(''type'', Some ''email''), (''value'', None)]) \<subseteq> {''type'', ''value''}
   \<and> get_prop [(''type'', Some ''email'')] ''type''
       = get_prop [(''type'', Some ''email''), (''value'', None)] ''type''
   \<and> get_prop [(''type'', Some ''email'')] ''value''
       = get_prop [(''type'', Some ''email''), (''value'', None)] ''value''
   \<and> map fst (defined_props [(''type'', Some ''email'')])
       = map fst (defined_props [(''type'', Some ''email''), (''value'', None)])
   \<and> JSON_stringify [(''type'', Some ''email'')]
       = JSON_stringify [(''type'', Some ''email''), (''value'', None)]"
proof -
  have a: "distinct (map fst [(''type'', Some ''email'')])" by simp
  have b: "distinct (map fst [(''type'', Some ''email''), (''value'', None :: string option)])" by simp
  have c: "set (map fst [(''type'', Some ''email'')]) \<subseteq> {''type'', ''value''}" by simp
  have d: "set (map fst [(''type'', Some ''email''), (''value'', None :: string option)]) \<subseteq> {''type'', ''value''}"
    by simp
  have e: "get_prop [(''type'', Some ''email'')] ''type''
       = get_prop [(''type'', Some ''email''), (''value'', None)] ''type''"
    by (simp add: get_prop_def)
  have f: "get_prop [(''type'', Some ''email'')] ''value''
       = get_prop [(''type'', Some ''email''), (''value'', None)] ''value''"
    by (simp add: get_prop_def)
  have g: "map fst (defined_props [(''type'', Some ''email'')])
       = map fst (defined_props [(''type'', Some ''email''), (''value'', None)])"
    by simp
  from cache_key_iff_same_order [OF a b c d e f] g
  have "JSON_stringify [(''type'', Some ''email'')]
       = JSON_stringify [(''type'', Some ''email''), (''value'', None)]"
    by (simp only:)
  with a b c d e f g show ?thesis by (intro conjI)
qed

end
